theory Spec2Isabelle
  imports
    Main
    "HOL-Library.Multiset"
    "HOL-Library.Char_ord"
    "HOL-Library.List_Lexorder"
    "HOL-Library.Sublist"
begin

section \<open>The launcher list model of \<^verbatim>\<open>src/launchermodel.cpp\<close>\<close>

text \<open>
  The model follows \<^verbatim>\<open>LauncherModel\<close> method by method. Conventions:
  \<^item> a \<^verbatim>\<open>QString\<close> or \<^verbatim>\<open>QByteArray\<close> is a \<open>string\<close>, one \<open>char\<close> per code unit. The case
    mappings and the white-space test of Qt are written out for ASCII; every other
    character is its own upper and lower case and is not white space;
  \<^item> a \<^verbatim>\<open>LauncherItem *\<close> is an address, and the objects made by \<^verbatim>\<open>new LauncherItem\<close>
    live in an explicit heap: the object at address \<open>p\<close> is the \<open>p\<close>-th element of the heap
    list, so that \<^verbatim>\<open>new\<close> appends and returns a fresh address. Reading through an address
    that holds no object is undefined behaviour in C++; every method that dereferences
    returns \<open>None\<close> there;
  \<^item> the notifications a method emits and the effects it requests from Qt are appended, in
    program order, to the \<open>trace\<close> of the model;
  \<^item> what a method reads from outside the process (environment variable, locale, the parsed
    entry file, the outcome of starting a process) is a field of \<open>environment\<close>.

  \<^verbatim>\<open>sendToDock\<close>, \<^verbatim>\<open>removeFromDock\<close>, \<^verbatim>\<open>save\<close> and \<^verbatim>\<open>roleNames\<close> only read the store and are
  left out, as is the \<^verbatim>\<open>countChanged\<close> signal, which repeats the notifications of the trace.
\<close>

subsection \<open>Strings\<close>

definition lower_letters :: string where
  "lower_letters = ''abcdefghijklmnopqrstuvwxyz''"

definition upper_letters :: string where
  "upper_letters = ''ABCDEFGHIJKLMNOPQRSTUVWXYZ''"

text \<open>\<^verbatim>\<open>QByteArray::toUpper\<close> and \<^verbatim>\<open>QString::toLower\<close>, character by character.\<close>

definition toUpper_char :: "char \<Rightarrow> char" where
  "toUpper_char c = (case map_of (zip lower_letters upper_letters) c of Some u \<Rightarrow> u | None \<Rightarrow> c)"

definition toLower_char :: "char \<Rightarrow> char" where
  "toLower_char c = (case map_of (zip upper_letters lower_letters) c of Some l \<Rightarrow> l | None \<Rightarrow> c)"

definition toUpper :: "string \<Rightarrow> string" where
  "toUpper s = map toUpper_char s"

definition toLower :: "string \<Rightarrow> string" where
  "toLower s = map toLower_char s"

text \<open>
  \<^verbatim>\<open>s.contains(key, Qt::CaseInsensitive)\<close>: \<open>key\<close> occurs in \<open>s\<close> as a contiguous run of
  characters, both taken in lower case. The empty key occurs in every string.
\<close>

definition contains_CaseInsensitive :: "string \<Rightarrow> string \<Rightarrow> bool" where
  "contains_CaseInsensitive s key = sublist (toLower key) (toLower s)"

text \<open>
  \<^verbatim>\<open>QString::split(sep)\<close> for a one-character separator, with the default
  \<^verbatim>\<open>KeepEmptyParts\<close>: the result has one more part than the string has separators, so it
  is never the empty list. The separator is given as a test on characters.
\<close>

fun split_at :: "(char \<Rightarrow> bool) \<Rightarrow> string \<Rightarrow> string list" where
  "split_at sep [] = [] # []"
| "split_at sep (c # cs) =
     (if sep c then [] # split_at sep cs
      else (case split_at sep cs of [] \<Rightarrow> [c] # [] | w # ws \<Rightarrow> (c # w) # ws))"

definition split :: "char \<Rightarrow> string \<Rightarrow> string list" where
  "split sep s = split_at (\<lambda>c. c = sep) s"

text \<open>\<^verbatim>\<open>QChar::isSpace\<close> on ASCII: the space and the characters 9 to 13.\<close>

definition isSpace :: "char \<Rightarrow> bool" where
  "isSpace c = (c = CHR '' '' \<or> (9 \<le> (of_char c :: nat) \<and> (of_char c :: nat) \<le> 13))"

fun join_space :: "string list \<Rightarrow> string" where
  "join_space [] = []"
| "join_space [w] = w"
| "join_space (w # v # ws) = w @ CHR '' '' # join_space (v # ws)"

text \<open>
  \<^verbatim>\<open>QString::simplified\<close>: white space is removed from both ends and every inner run of
  white space becomes one space.
\<close>

definition simplified :: "string \<Rightarrow> string" where
  "simplified s = join_space (filter (\<lambda>w. w \<noteq> []) (split_at isSpace s))"

text \<open>
  \<^verbatim>\<open>appExec.remove(QRegularExpression("%."))\<close>: every match of a percent sign followed by
  one character other than a line feed is removed, scanning from the left; a removed pair
  is not scanned again.
\<close>

fun remove_percent_any :: "string \<Rightarrow> string" where
  "remove_percent_any (c # d # cs) =
     (if c = CHR ''%'' \<and> d \<noteq> CHR 0x0A then remove_percent_any cs
      else c # remove_percent_any (d # cs))"
| "remove_percent_any cs = cs"

text \<open>\<^verbatim>\<open>appExec.remove(QRegularExpression("^\""))\<close>: a double quote at the very start is removed.\<close>

fun remove_leading_quote :: "string \<Rightarrow> string" where
  "remove_leading_quote (c # cs) = (if c = CHR 0x22 then cs else c # cs)"
| "remove_leading_quote [] = []"

text \<open>\<^verbatim>\<open>appExec.replace("\"", "")\<close>: every double quote is removed.\<close>

definition remove_quotes :: "string \<Rightarrow> string" where
  "remove_quotes s = filter (\<lambda>c. c \<noteq> CHR 0x22) s"

subsection \<open>Values read from an entry file\<close>

text \<open>
  \<^verbatim>\<open>QVariant\<close>, as far as the model needs it: the invalid variant (what \<^verbatim>\<open>value\<close> (here \<open>value_of\<close>) returns
  for a key that is not there) and a variant holding a string. \<^verbatim>\<open>toBool\<close> of a string is
  false for the empty string, \<^verbatim>\<open>0\<close> and \<^verbatim>\<open>false\<close> (in any case) and true otherwise.
\<close>

datatype QVariant = Invalid | StringVariant string

fun toBool :: "QVariant \<Rightarrow> bool" where
  "toBool Invalid = False"
| "toBool (StringVariant v) = (\<not> (toLower v = [] \<or> toLower v = ''0'' \<or> toLower v = ''false''))"

fun toString :: "QVariant \<Rightarrow> string" where
  "toString Invalid = []"
| "toString (StringVariant v) = v"

text \<open>
  Modelled from the spec: the entry-file parser \<^verbatim>\<open>DesktopProperties\<close> (declared in
  \<^verbatim>\<open>desktopproperties.h\<close>, which is not part of the sources at hand). The spec describes it
  as a key/value lookup by name in which a missing field reads as empty. The parsed group
  is a finite map from keys to the text of their values.
\<close>

type_synonym DesktopProperties = "string \<rightharpoonup> string"

definition contains :: "DesktopProperties \<Rightarrow> string \<Rightarrow> bool" where
  "contains desktop key = (desktop key \<noteq> None)"

definition value_of :: "DesktopProperties \<Rightarrow> string \<Rightarrow> QVariant" where
  "value_of desktop key = (case desktop key of None \<Rightarrow> Invalid | Some v \<Rightarrow> StringVariant v)"

subsection \<open>Data model\<close>

text \<open>
  Modelled from the spec: \<^verbatim>\<open>LauncherItem\<close> and the mode enumeration are declared in
  \<^verbatim>\<open>launchermodel.h\<close>, which is not part of the sources at hand. The fields are the six the
  spec lists and the source assigns in \<^verbatim>\<open>addApp\<close>; the field \<^verbatim>\<open>id\<close> is \<open>item_id\<close> here.
\<close>

record LauncherItem =
  item_id :: string
  name :: string
  genericName :: string
  comment :: string
  iconName :: string
  args :: "string list"

datatype Mode = NormalMode | SearchMode

type_synonym item_ptr = nat

datatype effect =
    BeginInsertRows int int
  | EndInsertRows
  | BeginRemoveRows int int
  | EndRemoveRows
  | BeginResetModel
  | EndResetModel
  | LayoutChanged
  | ApplicationRemoved item_ptr
  | DeleteLater item_ptr
  | ApplicationLaunched
  | StartDetached string "string list"
  | Debug string string

record LauncherModel =
  heap :: "LauncherItem list"
  m_items :: "item_ptr list"
  m_searchItems :: "item_ptr list"
  m_mode :: Mode
  trace :: "effect list"

record environment =
  XDG_CURRENT_DESKTOP :: string
  locale_name :: string
  desktop_file :: "string \<Rightarrow> DesktopProperties"
  startDetached :: "string \<Rightarrow> string list \<Rightarrow> bool"

text \<open>The model right after construction: no item, normal mode.\<close>

definition init_model :: LauncherModel where
  "init_model = \<lparr>heap = [], m_items = [], m_searchItems = [], m_mode = NormalMode, trace = []\<rparr>"

definition deref :: "LauncherItem list \<Rightarrow> item_ptr \<Rightarrow> LauncherItem option" where
  "deref h p = (if p < length h then Some (h ! p) else None)"

subsection \<open>\<^verbatim>\<open>detectDesktopEnvironment\<close>\<close>

definition detectDesktopEnvironment :: "environment \<Rightarrow> string" where
  "detectDesktopEnvironment env =
     (let desktop = XDG_CURRENT_DESKTOP env
      in if desktop \<noteq> [] then toUpper desktop else ''UNKNOWN'')"

subsection \<open>\<^verbatim>\<open>findById\<close>\<close>

fun findById_loop :: "LauncherItem list \<Rightarrow> item_ptr list \<Rightarrow> int \<Rightarrow> string \<Rightarrow> int option" where
  "findById_loop h [] i key = Some (- 1)"
| "findById_loop h (p # ps) i key =
     (case deref h p of
        None \<Rightarrow> None
      | Some item \<Rightarrow> if item_id item = key then Some i else findById_loop h ps (i + 1) key)"

definition findById :: "LauncherModel \<Rightarrow> string \<Rightarrow> int option" where
  "findById s key = findById_loop (heap s) (m_items s) 0 key"

subsection \<open>\<^verbatim>\<open>addApp\<close>\<close>

text \<open>Lines 305 to 309 and 317: from the \<^verbatim>\<open>Exec\<close> value to the launch arguments.\<close>

definition exec_args :: "string \<Rightarrow> string list" where
  "exec_args appExec =
     split (CHR '' '') (simplified (remove_quotes (remove_leading_quote (remove_percent_any appExec))))"

definition new_item :: "environment \<Rightarrow> string \<Rightarrow> DesktopProperties \<Rightarrow> LauncherItem" where
  "new_item env fileName desktop =
     (let appName = toString (value_of desktop (''Name['' @ locale_name env @ '']''));
          appExec = toString (value_of desktop ''Exec'');
          appName = (if appName = [] then toString (value_of desktop ''Name'') else appName)
      in \<lparr>item_id = fileName,
          name = appName,
          genericName = toString (value_of desktop ''Comment''),
          comment = toString (value_of desktop ''Comment''),
          iconName = toString (value_of desktop ''Icon''),
          args = exec_args appExec\<rparr>)"

text \<open>Lines 319 to 323: the item is appended between the insert brackets.\<close>

definition append_item :: "LauncherItem \<Rightarrow> LauncherModel \<Rightarrow> LauncherModel" where
  "append_item item s =
     (let row = int (length (m_items s))
      in s\<lparr>heap := heap s @ [item],
            m_items := m_items s @ [length (heap s)],
            trace := trace s @
              [BeginInsertRows row row, Debug ''added: '' (name item), EndInsertRows]\<rparr>)"

definition addApp :: "environment \<Rightarrow> string \<Rightarrow> LauncherModel \<Rightarrow> LauncherModel option" where
  "addApp env fileName s =
     (case findById s fileName of
        None \<Rightarrow> None
      | Some found \<Rightarrow>
          if found \<noteq> - 1 then Some s
          else
            let desktop = desktop_file env fileName in
            if contains desktop ''Terminal'' \<and> toBool (value_of desktop ''Terminal'') then Some s
            else if contains desktop ''OnlyShowIn'' \<and>
                    detectDesktopEnvironment env
                      \<notin> set (split (CHR '';'') (toString (value_of desktop ''OnlyShowIn'')))
            then Some s
            else if toBool (value_of desktop ''NoDisplay'') \<or> toBool (value_of desktop ''Hidden'')
            then Some s
            else Some (append_item (new_item env fileName desktop) s))"

subsection \<open>\<^verbatim>\<open>removeApp\<close>\<close>

text \<open>\<^verbatim>\<open>QList::indexOf\<close>: the first position of the value, or \<open>-1\<close>.\<close>

fun indexOf_from :: "item_ptr list \<Rightarrow> int \<Rightarrow> item_ptr \<Rightarrow> int" where
  "indexOf_from [] i item = - 1"
| "indexOf_from (p # ps) i item = (if p = item then i else indexOf_from ps (i + 1) item)"

definition indexOf :: "item_ptr list \<Rightarrow> item_ptr \<Rightarrow> int" where
  "indexOf ps item = indexOf_from ps 0 item"

definition removeAt :: "'a list \<Rightarrow> nat \<Rightarrow> 'a list" where
  "removeAt xs i = take i xs @ drop (Suc i) xs"

definition removeApp :: "item_ptr \<Rightarrow> LauncherModel \<Rightarrow> LauncherModel option" where
  "removeApp item s =
     (let index = indexOf (m_items s) item
      in if index < 0 then Some s
         else case deref (heap s) item of
                None \<Rightarrow> None
              | Some obj \<Rightarrow>
                  Some (s\<lparr>m_items := removeAt (m_items s) (nat index),
                           trace := trace s @
                             [BeginRemoveRows index index, Debug ''removed: '' (name obj),
                              EndRemoveRows, ApplicationRemoved item, DeleteLater item]\<rparr>))"

subsection \<open>\<^verbatim>\<open>search\<close>, \<^verbatim>\<open>rowCount\<close> and \<^verbatim>\<open>data\<close>\<close>

fun search_loop :: "LauncherItem list \<Rightarrow> string \<Rightarrow> item_ptr list \<Rightarrow> item_ptr list \<Rightarrow> item_ptr list option" where
  "search_loop h key [] found = Some found"
| "search_loop h key (p # ps) found =
     (case deref h p of
        None \<Rightarrow> None
      | Some item \<Rightarrow>
          if contains_CaseInsensitive (name item) key \<or> contains_CaseInsensitive (item_id item) key
          then search_loop h key ps (found @ [p])
          else search_loop h key ps found)"

definition search :: "string \<Rightarrow> LauncherModel \<Rightarrow> LauncherModel option" where
  "search key s =
     (case search_loop (heap s) key (m_items s) [] of
        None \<Rightarrow> None
      | Some found \<Rightarrow>
          Some (s\<lparr>m_mode := (if key = [] then NormalMode else SearchMode),
                   m_searchItems := found,
                   trace := trace s @ [LayoutChanged]\<rparr>))"

definition rowCount :: "LauncherModel \<Rightarrow> nat" where
  "rowCount s = (if m_mode s = SearchMode then length (m_searchItems s) else length (m_items s))"

text \<open>
  The item \<^verbatim>\<open>data\<close> reads for a row: taken from the store in normal mode and from the
  search overlay otherwise. \<^verbatim>\<open>QList::at\<close> outside the list is undefined.
\<close>

definition data_item :: "LauncherModel \<Rightarrow> nat \<Rightarrow> item_ptr option" where
  "data_item s row =
     (let rows = (if m_mode s = NormalMode then m_items s else m_searchItems s)
      in if row < length rows then Some (rows ! row) else None)"

text \<open>What a view reads: \<^verbatim>\<open>data\<close> at every row below \<^verbatim>\<open>rowCount\<close>.\<close>

definition shown :: "LauncherModel \<Rightarrow> item_ptr option list" where
  "shown s = map (data_item s) [0 ..< rowCount s]"

subsection \<open>\<^verbatim>\<open>refresh\<close>\<close>

text \<open>
  \<^verbatim>\<open>refresh\<close> changes nothing itself: it queues calls for the thread that owns the model.
  It reads the store twice (lines 195 and 214); the model takes both reads from the same
  store, that is, no queued call runs in between. The directory walk is given by the
  paths the iterator yields and by \<^verbatim>\<open>QFile::exists\<close>.
\<close>

datatype invocation = Invoke_addApp string | Invoke_removeApp item_ptr | Invoke_refreshed

fun addedEntries_loop :: "LauncherItem list \<Rightarrow> item_ptr list \<Rightarrow> string list \<Rightarrow> string list option" where
  "addedEntries_loop h [] addedEntries = Some addedEntries"
| "addedEntries_loop h (p # ps) addedEntries =
     (case deref h p of
        None \<Rightarrow> None
      | Some item \<Rightarrow> addedEntries_loop h ps (addedEntries @ [item_id item]))"

fun allEntries_loop :: "(string \<Rightarrow> bool) \<Rightarrow> string list \<Rightarrow> string list \<Rightarrow> string list" where
  "allEntries_loop exists [] allEntries = allEntries"
| "allEntries_loop exists (fileName # rest) allEntries =
     (if \<not> exists fileName then allEntries_loop exists rest allEntries
      else allEntries_loop exists rest (allEntries @ [fileName]))"

fun add_loop :: "string list \<Rightarrow> string list \<Rightarrow> invocation list \<Rightarrow> invocation list" where
  "add_loop addedEntries [] queue = queue"
| "add_loop addedEntries (fileName # rest) queue =
     (if fileName \<notin> set addedEntries
      then add_loop addedEntries rest (queue @ [Invoke_addApp fileName])
      else add_loop addedEntries rest queue)"

fun remove_loop :: "LauncherItem list \<Rightarrow> string list \<Rightarrow> item_ptr list \<Rightarrow> invocation list \<Rightarrow> invocation list option" where
  "remove_loop h allEntries [] queue = Some queue"
| "remove_loop h allEntries (p # ps) queue =
     (case deref h p of
        None \<Rightarrow> None
      | Some item \<Rightarrow>
          if item_id item \<notin> set allEntries
          then remove_loop h allEntries ps (queue @ [Invoke_removeApp p])
          else remove_loop h allEntries ps queue)"

definition refresh :: "string list \<Rightarrow> (string \<Rightarrow> bool) \<Rightarrow> LauncherModel \<Rightarrow> invocation list option" where
  "refresh listing exists manager =
     (case addedEntries_loop (heap manager) (m_items manager) [] of
        None \<Rightarrow> None
      | Some addedEntries \<Rightarrow>
          (let allEntries = allEntries_loop exists listing [];
               adds = add_loop addedEntries allEntries []
           in (case remove_loop (heap manager) allEntries (m_items manager) adds of
                 None \<Rightarrow> None
               | Some queue \<Rightarrow> Some (queue @ [Invoke_refreshed]))))"

subsection \<open>The handler of \<^verbatim>\<open>refreshed\<close>\<close>

text \<open>
  \<^verbatim>\<open>std::sort\<close> with a comparator \<open>lt\<close>. The C++ standard fixes the result only up to the
  order of elements that compare equivalent; the model is one conforming sort, by
  insertion, which keeps such elements in their order.
\<close>

fun std_sort_insert :: "('a \<Rightarrow> 'a \<Rightarrow> bool) \<Rightarrow> 'a \<Rightarrow> 'a list \<Rightarrow> 'a list" where
  "std_sort_insert lt x [] = [x]"
| "std_sort_insert lt x (y # ys) =
     (if lt x y then x # y # ys else y # std_sort_insert lt x ys)"

fun std_sort :: "('a \<Rightarrow> 'a \<Rightarrow> bool) \<Rightarrow> 'a list \<Rightarrow> 'a list" where
  "std_sort lt [] = []"
| "std_sort lt (x # xs) = std_sort_insert lt x (std_sort lt xs)"

text \<open>
  Lines 64 to 70. The comparator reads the name of both items through their addresses, so
  the handler is undefined when the store holds an address without object.
\<close>

definition refreshed :: "LauncherModel \<Rightarrow> LauncherModel option" where
  "refreshed s =
     (if list_all (\<lambda>p. p < length (heap s)) (m_items s)
      then Some (s\<lparr>m_items := std_sort (\<lambda>a b. name (heap s ! a) < name (heap s ! b)) (m_items s),
                   trace := trace s @ [BeginResetModel, EndResetModel]\<rparr>)
      else None)"

subsection \<open>\<^verbatim>\<open>move\<close>\<close>

text \<open>
  \<^verbatim>\<open>QList::move(from, to)\<close>: the element at \<open>from\<close> is taken out and put back so that it
  ends at position \<open>to\<close>. Both positions must be inside the list.
\<close>

definition list_move :: "'a list \<Rightarrow> nat \<Rightarrow> nat \<Rightarrow> 'a list" where
  "list_move xs from to =
     (let rest = removeAt xs from in take to rest @ [xs ! from] @ drop to rest)"

definition in_int :: "int \<Rightarrow> bool" where
  "in_int n = (- (2 ^ 31) \<le> n \<and> n < 2 ^ 31)"

text \<open>
  The arithmetic is on C++ \<^verbatim>\<open>int\<close>: a product or sum outside 32 bits is undefined, as is a
  position outside the list.
\<close>

definition move :: "int \<Rightarrow> int \<Rightarrow> int \<Rightarrow> int \<Rightarrow> LauncherModel \<Rightarrow> LauncherModel option" where
  "move from to page pageCount s =
     (if from = to then Some s
      else
        let newFrom = from + (page * pageCount);
            newTo = to + (page * pageCount);
            size = int (length (m_items s))
        in if in_int (page * pageCount) \<and> in_int newFrom \<and> in_int newTo \<and>
              0 \<le> newFrom \<and> newFrom < size \<and> 0 \<le> newTo \<and> newTo < size
           then Some (s\<lparr>m_items := list_move (m_items s) (nat newFrom) (nat newTo)\<rparr>)
           else None)"

subsection \<open>\<^verbatim>\<open>launch\<close>\<close>

text \<open>
  The result is the returned boolean and the model, whose trace has gained the launched
  notification and the start of the process. \<^verbatim>\<open>takeFirst\<close> on an empty list is undefined.
\<close>

definition launch :: "environment \<Rightarrow> string \<Rightarrow> LauncherModel \<Rightarrow> (bool \<times> LauncherModel) option" where
  "launch env path s =
     (case findById s path of
        None \<Rightarrow> None
      | Some index \<Rightarrow>
          if index \<noteq> - 1 then
            (case deref (heap s) (m_items s ! nat index) of
               None \<Rightarrow> None
             | Some item \<Rightarrow>
                 (case args item of
                    [] \<Rightarrow> None
                  | cmd # args' \<Rightarrow>
                      let arguments =
                            (if cmd = ''cutefish-screenshot'' then [''-d'', ''200''] else args')
                      in Some (startDetached env cmd arguments,
                               s\<lparr>trace := trace s @
                                    [ApplicationLaunched, StartDetached cmd arguments]\<rparr>)))
          else Some (False, s))"

subsection \<open>Sequences of calls\<close>

datatype call =
    Call_addApp environment string
  | Call_removeApp item_ptr
  | Call_move int int int int
  | Call_refreshed
  | Call_search string
  | Call_launch environment string

fun run_call :: "call \<Rightarrow> LauncherModel \<Rightarrow> LauncherModel option" where
  "run_call (Call_addApp env fileName) s = addApp env fileName s"
| "run_call (Call_removeApp item) s = removeApp item s"
| "run_call (Call_move from to page pageCount) s = move from to page pageCount s"
| "run_call Call_refreshed s = refreshed s"
| "run_call (Call_search key) s = search key s"
| "run_call (Call_launch env path) s = map_option snd (launch env path s)"

fun run_calls :: "call list \<Rightarrow> LauncherModel \<Rightarrow> LauncherModel option" where
  "run_calls [] s = Some s"
| "run_calls (c # cs) s = (case run_call c s of None \<Rightarrow> None | Some s' \<Rightarrow> run_calls cs s')"

subsection \<open>Notions used in the statements\<close>

text \<open>Every address in the store holds an object.\<close>

definition live_store :: "LauncherModel \<Rightarrow> bool" where
  "live_store s = list_all (\<lambda>p. p < length (heap s)) (m_items s)"

text \<open>The ids of the store items, in store order (\<open>None\<close> for an address without object).\<close>

definition store_ids :: "LauncherModel \<Rightarrow> string option list" where
  "store_ids s = map (\<lambda>p. map_option item_id (deref (heap s) p)) (m_items s)"

text \<open>The id of the store item at an address of a live store.\<close>

definition id_of :: "LauncherModel \<Rightarrow> item_ptr \<Rightarrow> string" where
  "id_of s p = item_id (heap s ! p)"

text \<open>No two store items share an id (and every address in the store holds an object).\<close>

definition unique_ids :: "LauncherModel \<Rightarrow> bool" where
  "unique_ids s = (live_store s \<and> distinct (store_ids s))"

text \<open>Every store item has its generic name equal to its comment.\<close>

definition comment_twice :: "LauncherModel \<Rightarrow> bool" where
  "comment_twice s =
     (live_store s \<and> list_all (\<lambda>p. genericName (heap s ! p) = comment (heap s ! p)) (m_items s))"

text \<open>Two strings are equal under case-insensitive comparison.\<close>

definition equal_CaseInsensitive :: "string \<Rightarrow> string \<Rightarrow> bool" where
  "equal_CaseInsensitive a b = (toLower a = toLower b)"

text \<open>The \<^verbatim>\<open>OnlyShowIn\<close> list of an entry, as line 289 splits it.\<close>

definition OnlyShowIn_items :: "DesktopProperties \<Rightarrow> string list" where
  "OnlyShowIn_items desktop = split (CHR '';'') (toString (value_of desktop ''OnlyShowIn''))"

text \<open>
  The name or the id of the item at an address contains the key as a substring, letter case
  ignored.
\<close>

definition matches_key :: "LauncherItem list \<Rightarrow> string \<Rightarrow> item_ptr \<Rightarrow> bool" where
  "matches_key h key p =
     (case deref h p of
        None \<Rightarrow> False
      | Some item \<Rightarrow>
          sublist (toLower key) (toLower (name item)) \<or>
          sublist (toLower key) (toLower (item_id item)))"

text \<open>The entry-file paths the directory walk yields that exist on disk.\<close>

definition on_disk :: "string list \<Rightarrow> (string \<Rightarrow> bool) \<Rightarrow> string list" where
  "on_disk listing exists = filter exists listing"

subsection \<open>Concrete inputs\<close>

text \<open>An entry that asks for a terminal.\<close>

definition env_terminal :: environment where
  "env_terminal =
     \<lparr>XDG_CURRENT_DESKTOP = ''Cutefish'', locale_name = ''en_US'',
      desktop_file = (\<lambda>fileName. [''Name'' \<mapsto> ''Htop'', ''Exec'' \<mapsto> ''htop'', ''Terminal'' \<mapsto> ''true'']),
      startDetached = (\<lambda>cmd arguments. True)\<rparr>"

text \<open>The file manager entry of the spec, in a Cutefish session with an English locale.\<close>

definition files_desktop :: string where
  "files_desktop = ''/usr/share/applications/cutefish-filemanager.desktop''"

definition env_files :: environment where
  "env_files =
     \<lparr>XDG_CURRENT_DESKTOP = ''Cutefish'', locale_name = ''en_US'',
      desktop_file = (\<lambda>fileName.
        if fileName = files_desktop
        then [''Name'' \<mapsto> ''Files'', ''Exec'' \<mapsto> ''org.cutefish.filemanager %U'']
        else Map.empty),
      startDetached = (\<lambda>cmd arguments. True)\<rparr>"

text \<open>An entry for GNOME only, read in a Cutefish session.\<close>

definition env_gnome_only :: environment where
  "env_gnome_only =
     \<lparr>XDG_CURRENT_DESKTOP = ''Cutefish'', locale_name = ''en_US'',
      desktop_file = (\<lambda>fileName.
        [''Name'' \<mapsto> ''Tweaks'', ''Exec'' \<mapsto> ''gnome-tweaks'', ''OnlyShowIn'' \<mapsto> ''GNOME;'']),
      startDetached = (\<lambda>cmd arguments. True)\<rparr>"

text \<open>An entry that names the session's environment in lower case.\<close>

definition env_lower_case :: environment where
  "env_lower_case =
     \<lparr>XDG_CURRENT_DESKTOP = ''Cutefish'', locale_name = ''en_US'',
      desktop_file = (\<lambda>fileName.
        [''Name'' \<mapsto> ''Dock'', ''Exec'' \<mapsto> ''cutefish-dock'', ''OnlyShowIn'' \<mapsto> ''cutefish;'']),
      startDetached = (\<lambda>cmd arguments. True)\<rparr>"

text \<open>A store of two items.\<close>

definition model_two :: LauncherModel where
  "model_two =
     \<lparr>heap =
        [\<lparr>item_id = ''/usr/share/applications/term.desktop'', name = ''Terminal'',
          genericName = [], comment = [], iconName = ''utilities-terminal'',
          args = [''cutefish-terminal'']\<rparr>,
         \<lparr>item_id = ''/usr/share/applications/cutefish-filemanager.desktop'', name = ''Files'',
          genericName = [], comment = [], iconName = ''file-manager'',
          args = [''org.cutefish.filemanager'']\<rparr>],
      m_items = [0, 1], m_searchItems = [], m_mode = NormalMode, trace = []\<rparr>"

section \<open>Properties\<close>

subsection \<open>Looking an id up\<close>

lemma deref_grow: "p < length h \<Longrightarrow> deref (h @ [obj]) p = deref h p"
  by (simp add: deref_def nth_append)

lemma findById_loop_defined:
  "list_all (\<lambda>p. p < length h) ps \<Longrightarrow> \<exists>r. findById_loop h ps i key = Some r"
  by (induction ps arbitrary: i) (auto simp: deref_def)

lemma findById_defined: "live_store s \<Longrightarrow> \<exists>r. findById s key = Some r"
  unfolding findById_def live_store_def by (rule findById_loop_defined)

lemma findById_loop_minus1:
  "findById_loop h ps i key = Some r \<Longrightarrow> 0 \<le> i \<Longrightarrow>
     (r = - 1) = (Some key \<notin> set (map (\<lambda>p. map_option item_id (deref h p)) ps))"
proof (induction ps arbitrary: i)
  case Nil
  then show ?case by simp
next
  case (Cons p ps)
  then obtain obj where obj: "deref h p = Some obj"
    by (cases "deref h p") simp_all
  show ?case
  proof (cases "item_id obj = key")
    case True
    with Cons.prems obj show ?thesis by simp
  next
    case False
    with Cons.prems obj have rec: "findById_loop h ps (i + 1) key = Some r" by simp
    from Cons.prems(2) have "0 \<le> i + 1" by simp
    from Cons.IH [OF rec this] obj False show ?thesis by simp
  qed
qed

lemma findById_minus1:
  "findById s key = Some r \<Longrightarrow> (r = - 1) = (Some key \<notin> set (store_ids s))"
  using findById_loop_minus1 [of "heap s" "m_items s" 0 key r]
  by (simp add: findById_def store_ids_def)

lemma findById_absent:
  assumes "live_store s" and "Some key \<notin> set (store_ids s)"
  shows "findById s key = Some (- 1)"
proof -
  from findById_defined [OF assms(1)] obtain r where r: "findById s key = Some r" by blast
  with findById_minus1 [OF r] assms(2) show ?thesis by simp
qed

subsection \<open>Id uniqueness\<close>

lemma item_id_new_item: "item_id (new_item env fileName desktop) = fileName"
  by (simp add: new_item_def Let_def)

lemma addApp_cases:
  assumes "live_store s"
  shows "addApp env fileName s = Some s \<or>
         (Some fileName \<notin> set (store_ids s) \<and>
          addApp env fileName s =
            Some (append_item (new_item env fileName (desktop_file env fileName)) s))"
proof -
  from findById_defined [OF assms] obtain r where r: "findById s fileName = Some r" by blast
  show ?thesis
  proof (cases "r = - 1")
    case True
    with findById_minus1 [OF r] have "Some fileName \<notin> set (store_ids s)" by simp
    with r True show ?thesis
      by (simp add: addApp_def Let_def)
  next
    case False
    with r show ?thesis by (simp add: addApp_def)
  qed
qed

lemma addApp_present:
  assumes "live_store s" and "Some fileName \<in> set (store_ids s)"
  shows "addApp env fileName s = Some s"
  using addApp_cases [OF assms(1), of env fileName] assms(2) by blast

lemma store_ids_live:
  "live_store s \<Longrightarrow> store_ids s = map (\<lambda>p. Some (item_id (heap s ! p))) (m_items s)"
  by (simp add: live_store_def store_ids_def list_all_iff deref_def)

lemma live_store_append_item: "live_store s \<Longrightarrow> live_store (append_item obj s)"
  by (auto simp: live_store_def append_item_def Let_def list_all_iff less_Suc_eq)

lemma store_ids_append_item:
  assumes "live_store s"
  shows "store_ids (append_item obj s) = store_ids s @ [Some (item_id obj)]"
proof -
  from assms
  have "map (\<lambda>p. map_option item_id (deref (heap s @ [obj]) p)) (m_items s) = store_ids s" for obj
    by (auto simp: live_store_def list_all_iff store_ids_def deref_grow)
  then show ?thesis
    by (simp add: store_ids_def append_item_def Let_def deref_def)
qed

lemma unique_ids_addApp:
  assumes "unique_ids s" and "addApp env fileName s = Some s'"
  shows "unique_ids s'"
proof -
  from assms(1) have l: "live_store s" and d: "distinct (store_ids s)"
    by (simp_all add: unique_ids_def)
  from addApp_cases [OF l, of env fileName] assms(2)
  consider "s' = s"
    | "Some fileName \<notin> set (store_ids s)"
      "s' = append_item (new_item env fileName (desktop_file env fileName)) s"
    by auto
  then show ?thesis
  proof cases
    case 1
    with assms(1) show ?thesis by simp
  next
    case 2
    with l d show ?thesis
      by (simp add: unique_ids_def live_store_append_item store_ids_append_item item_id_new_item)
  qed
qed

lemma store_ids_mset:
  assumes "heap s' = heap s" and "mset (m_items s') = mset (m_items s)"
  shows "mset (store_ids s') = mset (store_ids s)"
proof -
  have "mset (store_ids s') = image_mset (\<lambda>p. map_option item_id (deref (heap s') p)) (mset (m_items s'))"
    by (simp add: store_ids_def)
  also have "\<dots> = image_mset (\<lambda>p. map_option item_id (deref (heap s) p)) (mset (m_items s))"
    by (simp only: assms)
  also have "\<dots> = mset (store_ids s)"
    by (simp add: store_ids_def)
  finally show ?thesis .
qed

lemma unique_ids_permuted:
  assumes "unique_ids s" and "heap s' = heap s" and "mset (m_items s') = mset (m_items s)"
  shows "unique_ids s'"
proof -
  from assms(3) have "set (m_items s') = set (m_items s)" by (rule mset_eq_setD)
  with assms(1,2) have "live_store s'"
    by (simp add: unique_ids_def live_store_def list_all_iff)
  moreover from store_ids_mset [OF assms(2,3)] assms(1) have "distinct (store_ids s')"
    by (metis unique_ids_def mset_eq_imp_distinct_iff)
  ultimately show ?thesis by (simp add: unique_ids_def)
qed

lemma mset_std_sort_insert: "mset (std_sort_insert lt x xs) = add_mset x (mset xs)"
  by (induction xs) simp_all

lemma mset_std_sort: "mset (std_sort lt xs) = mset xs"
  by (induction xs) (simp_all add: mset_std_sort_insert)

lemma mset_removeAt:
  "i < length xs \<Longrightarrow> add_mset (xs ! i) (mset (removeAt xs i)) = mset xs"
proof -
  assume "i < length xs"
  then have "xs = take i xs @ xs ! i # drop (Suc i) xs" by (rule id_take_nth_drop)
  then have "mset xs = mset (take i xs @ xs ! i # drop (Suc i) xs)" by simp
  then show ?thesis by (simp add: removeAt_def)
qed

lemma mset_list_move:
  assumes "from < length xs"
  shows "mset (list_move xs from to) = mset xs"
proof -
  let ?rest = "removeAt xs from"
  have "mset (take to ?rest) + mset (drop to ?rest) = mset ?rest"
    by (metis append_take_drop_id mset_append)
  then have "mset (list_move xs from to) = add_mset (xs ! from) (mset ?rest)"
    by (simp add: list_move_def Let_def)
  with mset_removeAt [OF assms] show ?thesis by simp
qed

lemma unique_ids_refreshed:
  assumes "unique_ids s" and "refreshed s = Some s'"
  shows "unique_ids s'"
proof -
  from assms(2) have "heap s' = heap s" "mset (m_items s') = mset (m_items s)"
    by (auto simp: refreshed_def mset_std_sort split: if_splits)
  with assms(1) show ?thesis by (rule unique_ids_permuted)
qed

lemma unique_ids_move:
  assumes "unique_ids s" and "move from to page pageCount s = Some s'"
  shows "unique_ids s'"
proof (cases "from = to")
  case True
  with assms show ?thesis by (simp add: move_def)
next
  case False
  with assms(2) have "heap s' = heap s" "mset (m_items s') = mset (m_items s)"
    by (auto simp: move_def Let_def mset_list_move split: if_splits)
  with assms(1) show ?thesis by (rule unique_ids_permuted)
qed

lemma unique_ids_removeApp:
  assumes "unique_ids s" and "removeApp item s = Some s'"
  shows "unique_ids s'"
proof (cases "indexOf (m_items s) item < 0")
  case True
  with assms show ?thesis by (simp add: removeApp_def)
next
  case False
  with assms(2) have h: "heap s' = heap s"
    and m: "m_items s' = removeAt (m_items s) (nat (indexOf (m_items s) item))"
    by (auto simp: removeApp_def Let_def split: option.splits)
  from m have sub: "set (m_items s') \<subseteq> set (m_items s)"
    by (auto simp: removeAt_def dest: in_set_takeD in_set_dropD)
  with assms(1) h have "live_store s'"
    by (auto simp: unique_ids_def live_store_def list_all_iff)
  moreover from h m have "store_ids s' = removeAt (store_ids s) (nat (indexOf (m_items s) item))"
    by (simp add: store_ids_def removeAt_def take_map drop_map)
  with assms(1) have "distinct (store_ids s')"
    by (simp add: unique_ids_def removeAt_def distinct_take distinct_drop set_take_disj_set_drop_if_distinct)
  ultimately show ?thesis by (simp add: unique_ids_def)
qed

lemma unique_ids_search:
  assumes "unique_ids s" and "search key s = Some s'"
  shows "unique_ids s'"
proof -
  from assms(2) have "heap s' = heap s" "m_items s' = m_items s"
    by (auto simp: search_def split: option.splits)
  with assms(1) show ?thesis by (simp add: unique_ids_def live_store_def store_ids_def)
qed

lemma unique_ids_launch:
  assumes "unique_ids s" and "launch env path s = Some (b, s')"
  shows "unique_ids s'"
proof -
  from assms(2) have "heap s' = heap s" "m_items s' = m_items s"
    by (auto simp: launch_def Let_def split: option.splits if_splits list.splits)
  with assms(1) show ?thesis by (simp add: unique_ids_def live_store_def store_ids_def)
qed

lemma unique_ids_run_call:
  assumes "unique_ids s" and "run_call c s = Some s'"
  shows "unique_ids s'"
proof (cases c)
  case (Call_addApp env fileName)
  with assms show ?thesis by (auto intro: unique_ids_addApp)
next
  case (Call_removeApp item)
  with assms show ?thesis by (auto intro: unique_ids_removeApp)
next
  case (Call_move "from" to page pageCount)
  with assms show ?thesis by (auto intro: unique_ids_move)
next
  case Call_refreshed
  with assms show ?thesis by (auto intro: unique_ids_refreshed)
next
  case (Call_search key)
  with assms show ?thesis by (auto intro: unique_ids_search)
next
  case (Call_launch env path)
  with assms show ?thesis by (auto intro: unique_ids_launch)
qed

lemma unique_ids_run_calls:
  "unique_ids s \<Longrightarrow> run_calls cs s = Some s' \<Longrightarrow> unique_ids s'"
proof (induction cs arbitrary: s)
  case Nil
  then show ?case by simp
next
  case (Cons c cs)
  then obtain t where t: "run_call c s = Some t" and r: "run_calls cs t = Some s'"
    by (auto split: option.splits)
  from unique_ids_run_call [OF Cons.prems(1) t] have "unique_ids t" .
  from Cons.IH [OF this r] show ?case .
qed

lemma addApp_defined:
  assumes "live_store s"
  shows "\<exists>s'. addApp env fileName s = Some s'"
  using addApp_cases [OF assms, of env fileName] by blast

lemma unique_ids_init: "unique_ids init_model"
  by (simp add: unique_ids_def live_store_def store_ids_def init_model_def)

lemma run_adds_defined:
  "unique_ids s \<Longrightarrow>
     \<exists>s'. run_calls (map (\<lambda>(env, fileName). Call_addApp env fileName) adds) s = Some s'"
proof (induction adds arbitrary: s)
  case Nil
  then show ?case by simp
next
  case (Cons a adds)
  obtain env fileName where a: "a = (env, fileName)" by (cases a)
  from Cons.prems have "live_store s" by (simp add: unique_ids_def)
  from addApp_defined [OF this] obtain t where t: "addApp env fileName s = Some t" by blast
  from unique_ids_addApp [OF Cons.prems t] have "unique_ids t" .
  from Cons.IH [OF this] a t show ?case by simp
qed

text \<open>
  C1. Id uniqueness is an invariant of the store. From a store without two items of the same
  id, every sequence of \<^verbatim>\<open>addApp\<close> calls runs to the end and leaves such a store;
  \<^verbatim>\<open>addApp\<close> with a file name that is already the id of a store item returns the model
  unchanged; and every sequence of store operations (\<^verbatim>\<open>addApp\<close>, \<^verbatim>\<open>removeApp\<close>, \<^verbatim>\<open>move\<close>,
  the sort after a refresh, \<^verbatim>\<open>search\<close>, \<^verbatim>\<open>launch\<close>) that runs to the end leaves such a store.
  The model right after construction has an empty store (\<open>unique_ids_init\<close>).
\<close>

theorem store_ids_stay_unique:
  assumes "unique_ids s"
  shows "(\<forall>adds. \<exists>s'. run_calls (map (\<lambda>(env, fileName). Call_addApp env fileName) adds) s = Some s' \<and>
                       unique_ids s') \<and>
         (\<forall>env fileName. Some fileName \<in> set (store_ids s) \<longrightarrow> addApp env fileName s = Some s) \<and>
         (\<forall>cs s'. run_calls cs s = Some s' \<longrightarrow> unique_ids s')"
proof (intro conjI allI impI)
  fix adds
  from run_adds_defined [OF assms] obtain s'
    where "run_calls (map (\<lambda>(env, fileName). Call_addApp env fileName) adds) s = Some s'" by blast
  with unique_ids_run_calls [OF assms this]
  show "\<exists>s'. run_calls (map (\<lambda>(env, fileName). Call_addApp env fileName) adds) s = Some s' \<and>
             unique_ids s'" by blast
next
  fix env fileName
  assume "Some fileName \<in> set (store_ids s)"
  with assms show "addApp env fileName s = Some s"
    by (simp add: unique_ids_def addApp_present)
next
  fix cs s'
  assume "run_calls cs s = Some s'"
  with assms show "unique_ids s'" by (rule unique_ids_run_calls)
qed

theorem store_ids_stay_unique_witness:
  "unique_ids init_model \<and>
   (\<exists>s'. run_calls [Call_addApp env_files files_desktop,
                     Call_addApp env_files files_desktop] init_model = Some s' \<and>
         unique_ids s')"
proof -
  from store_ids_stay_unique [OF unique_ids_init]
  have "\<exists>s'. run_calls (map (\<lambda>(env, fileName). Call_addApp env fileName)
                 [(env_files, files_desktop), (env_files, files_desktop)]) init_model = Some s' \<and>
             unique_ids s'"
    by blast
  with unique_ids_init show ?thesis by simp
qed

subsection \<open>Entries that are not added\<close>

lemma toBool_contains: "toBool (value_of desktop key) \<Longrightarrow> contains desktop key"
  by (cases "desktop key") (simp_all add: value_of_def contains_def)

lemma live_store_init: "live_store init_model"
  by (simp add: live_store_def init_model_def)

text \<open>
  C2. An entry file whose \<^verbatim>\<open>Terminal\<close>, \<^verbatim>\<open>NoDisplay\<close> or \<^verbatim>\<open>Hidden\<close> field reads as true makes
  \<^verbatim>\<open>addApp\<close> return without creating an item: the model after the call is the model before
  it, whatever the other fields of the entry are.
\<close>

theorem addApp_flagged_entry_not_added:
  assumes "live_store s"
    and "toBool (value_of (desktop_file env fileName) ''Terminal'') \<or>
         toBool (value_of (desktop_file env fileName) ''NoDisplay'') \<or>
         toBool (value_of (desktop_file env fileName) ''Hidden'')"
  shows "addApp env fileName s = Some s"
proof -
  from findById_defined [OF assms(1)] obtain r where r: "findById s fileName = Some r" by blast
  from assms(2) r toBool_contains [of "desktop_file env fileName" "''Terminal''"] show ?thesis
    by (auto simp: addApp_def Let_def)
qed

theorem addApp_flagged_entry_not_added_witness:
  "live_store init_model \<and>
   toBool (value_of (desktop_file env_terminal ''/usr/share/applications/htop.desktop'') ''Terminal'') \<and>
   addApp env_terminal ''/usr/share/applications/htop.desktop'' init_model = Some init_model"
proof -
  have t: "toBool (value_of (desktop_file env_terminal ''/usr/share/applications/htop.desktop'') ''Terminal'')"
    by (simp add: env_terminal_def value_of_def toLower_def toLower_char_def
        upper_letters_def lower_letters_def)
  from addApp_flagged_entry_not_added
         [OF live_store_init, of env_terminal "''/usr/share/applications/htop.desktop''"]
       live_store_init t
  show ?thesis by blast
qed

subsection \<open>Removing an item\<close>

lemma indexOf_from_absent: "item \<notin> set ps \<Longrightarrow> indexOf_from ps i item = - 1"
  by (induction ps arbitrary: i) auto

text \<open>
  C8. \<^verbatim>\<open>removeApp\<close> with an item address that is not in the store does nothing: the model
  after the call is the model before it, so the store keeps its contents and order and the
  trace gains neither the remove brackets nor the removal announcement.
\<close>

theorem removeApp_absent_is_noop:
  "item \<notin> set (m_items s) \<Longrightarrow> removeApp item s = Some s"
  by (simp add: removeApp_def indexOf_def indexOf_from_absent)

theorem removeApp_absent_is_noop_witness:
  "(7::nat) \<notin> set (m_items model_two) \<and> removeApp 7 model_two = Some model_two"
proof -
  have "(7::nat) \<notin> set (m_items model_two)" by (simp add: model_two_def)
  with removeApp_absent_is_noop [of 7 model_two] show ?thesis by simp
qed

subsection \<open>The item built from an entry\<close>

lemma exec_args_files: "exec_args ''org.cutefish.filemanager %U'' = [''org.cutefish.filemanager'']"
  by code_simp

text \<open>
  C7. For an entry file with \<^verbatim>\<open>Name=Files\<close>, \<^verbatim>\<open>Exec=org.cutefish.filemanager %U\<close>, no name for
  the locale, no \<^verbatim>\<open>OnlyShowIn\<close> and no rejecting flag, whose file name is not yet an id of the
  store, \<^verbatim>\<open>addApp\<close> appends an item with the file name as id, the name \<^verbatim>\<open>Files\<close> (the default
  name, for want of a localized one) and the single launch argument
  \<^verbatim>\<open>org.cutefish.filemanager\<close> (field code removed, the rest split at spaces).
\<close>

theorem addApp_files_example:
  assumes "live_store s" and "Some fileName \<notin> set (store_ids s)"
    and "desktop_file env fileName = desktop"
    and "desktop ''Name'' = Some ''Files''"
    and "desktop ''Exec'' = Some ''org.cutefish.filemanager %U''"
    and "desktop (''Name['' @ locale_name env @ '']'') = None"
    and "desktop ''OnlyShowIn'' = None"
    and "\<not> toBool (value_of desktop ''Terminal'')"
    and "\<not> toBool (value_of desktop ''NoDisplay'')"
    and "\<not> toBool (value_of desktop ''Hidden'')"
  shows "\<exists>item. addApp env fileName s = Some (append_item item s) \<and>
           item_id item = fileName \<and> name item = ''Files'' \<and>
           args item = [''org.cutefish.filemanager'']"
proof -
  let ?item = "new_item env fileName desktop"
  from findById_absent [OF assms(1,2)] assms(3,7,8,9,10)
  have "addApp env fileName s = Some (append_item ?item s)"
    by (simp add: addApp_def Let_def contains_def)
  moreover from assms(4,6) have "name ?item = ''Files''"
    by (simp add: new_item_def Let_def value_of_def)
  moreover from assms(5) have "args ?item = [''org.cutefish.filemanager'']"
    by (simp add: new_item_def Let_def value_of_def exec_args_files)
  ultimately show ?thesis
    using item_id_new_item by blast
qed

lemma env_files_entry:
  "desktop_file env_files files_desktop =
     [''Name'' \<mapsto> ''Files'', ''Exec'' \<mapsto> ''org.cutefish.filemanager %U'']"
  by (simp add: env_files_def)

theorem addApp_files_example_witness:
  "\<exists>item. addApp env_files files_desktop init_model = Some (append_item item init_model) \<and>
          item_id item = files_desktop \<and> name item = ''Files'' \<and>
          args item = [''org.cutefish.filemanager'']"
proof (rule addApp_files_example [OF live_store_init _ env_files_entry])
  show "Some files_desktop \<notin> set (store_ids init_model)"
    by (simp add: store_ids_def init_model_def)
qed (simp_all add: value_of_def env_files_def)

subsection \<open>What a call does to the heap and the store\<close>

lemma in_set_removeAtD: "x \<in> set (removeAt xs i) \<Longrightarrow> x \<in> set xs"
  by (auto simp: removeAt_def dest: in_set_takeD in_set_dropD)

lemma run_call_effect:
  assumes "live_store s" and "run_call c s = Some s'"
  shows "(heap s' = heap s \<and> set (m_items s') \<subseteq> set (m_items s)) \<or>
         (\<exists>env fileName. s' = append_item (new_item env fileName (desktop_file env fileName)) s)"
proof (cases c)
  case (Call_addApp env fileName)
  with addApp_cases [OF assms(1), of env fileName] assms(2) show ?thesis by auto
next
  case (Call_removeApp item)
  with assms(2) have "heap s' = heap s"
    and "m_items s' = m_items s \<or> (\<exists>i. m_items s' = removeAt (m_items s) i)"
    by (auto simp: removeApp_def Let_def split: if_splits option.splits)
  then show ?thesis by (auto dest: in_set_removeAtD)
next
  case (Call_move "from" to page pageCount)
  show ?thesis
  proof (cases "from = to")
    case True
    with assms(2) Call_move show ?thesis by (simp add: move_def)
  next
    case False
    with assms(2) Call_move have "heap s' = heap s" "mset (m_items s') = mset (m_items s)"
      by (auto simp: move_def Let_def mset_list_move split: if_splits)
    then show ?thesis by (auto dest: mset_eq_setD)
  qed
next
  case Call_refreshed
  with assms(2) have "heap s' = heap s" "mset (m_items s') = mset (m_items s)"
    by (auto simp: refreshed_def mset_std_sort split: if_splits)
  then show ?thesis by (auto dest: mset_eq_setD)
next
  case (Call_search key)
  with assms(2) show ?thesis by (auto simp: search_def split: option.splits)
next
  case (Call_launch env path)
  with assms(2) show ?thesis
    by (auto simp: launch_def Let_def split: option.splits if_splits list.splits)
qed

subsection \<open>Generic name and comment\<close>

lemma genericName_new_item:
  "genericName (new_item env fileName desktop) = comment (new_item env fileName desktop)"
  by (simp add: new_item_def Let_def)

lemma comment_twice_append_item:
  assumes "comment_twice s" and "genericName obj = comment obj"
  shows "comment_twice (append_item obj s)"
  using assms
  by (auto simp: comment_twice_def live_store_def append_item_def Let_def list_all_iff nth_append less_Suc_eq)

lemma comment_twice_run_call:
  assumes "comment_twice s" and "run_call c s = Some s'"
  shows "comment_twice s'"
proof -
  from assms(1) have l: "live_store s" by (simp add: comment_twice_def)
  from run_call_effect [OF l assms(2)]
  consider "heap s' = heap s" "set (m_items s') \<subseteq> set (m_items s)"
    | env fileName where "s' = append_item (new_item env fileName (desktop_file env fileName)) s"
    by blast
  then show ?thesis
  proof cases
    case 1
    with assms(1) show ?thesis
      by (auto simp: comment_twice_def live_store_def list_all_iff)
  next
    case 2
    with comment_twice_append_item [OF assms(1) genericName_new_item] show ?thesis by simp
  qed
qed

lemma comment_twice_run_calls:
  "comment_twice s \<Longrightarrow> run_calls cs s = Some s' \<Longrightarrow> comment_twice s'"
proof (induction cs arbitrary: s)
  case Nil
  then show ?case by simp
next
  case (Cons c cs)
  then obtain t where t: "run_call c s = Some t" and r: "run_calls cs t = Some s'"
    by (auto split: option.splits)
  from comment_twice_run_call [OF Cons.prems(1) t] have "comment_twice t" .
  from Cons.IH [OF this r] show ?case .
qed

lemma comment_twice_init: "comment_twice init_model"
  by (simp add: comment_twice_def live_store_def init_model_def)

text \<open>
  C10. The item \<^verbatim>\<open>addApp\<close> builds has its generic name equal to its comment, both being
  the \<^verbatim>\<open>Comment\<close> value of the entry; and since \<^verbatim>\<open>addApp\<close> is the only method that puts an
  item into the store, after any sequence of calls on a new model every address in the
  store holds an item whose generic name equals its comment.
\<close>

theorem genericName_is_comment:
  "genericName (new_item env fileName desktop) = toString (value_of desktop ''Comment'') \<and>
   comment (new_item env fileName desktop) = toString (value_of desktop ''Comment'') \<and>
   (\<forall>cs s'. run_calls cs init_model = Some s' \<longrightarrow>
      (\<forall>p \<in> set (m_items s'). \<exists>obj. deref (heap s') p = Some obj \<and> genericName obj = comment obj))"
proof (intro conjI allI impI ballI)
  fix cs s' p
  assume "run_calls cs init_model = Some s'" and p: "p \<in> set (m_items s')"
  with comment_twice_run_calls [OF comment_twice_init] have "comment_twice s'" by blast
  with p show "\<exists>obj. deref (heap s') p = Some obj \<and> genericName obj = comment obj"
    by (auto simp: comment_twice_def live_store_def list_all_iff deref_def)
qed (simp_all add: new_item_def Let_def)

lemma run_add_files:
  "run_calls [Call_addApp env_files files_desktop] init_model =
     Some (append_item (new_item env_files files_desktop (desktop_file env_files files_desktop)) init_model)"
proof -
  have "Some files_desktop \<notin> set (store_ids init_model)"
    by (simp add: store_ids_def init_model_def)
  from findById_absent [OF live_store_init this] show ?thesis
    by (simp add: addApp_def Let_def contains_def value_of_def env_files_def)
qed

theorem genericName_is_comment_witness:
  "\<exists>s' obj. run_calls [Call_addApp env_files files_desktop] init_model = Some s' \<and>
         m_items s' = [0] \<and> deref (heap s') 0 = Some obj \<and> genericName obj = comment obj"
proof -
  let ?s = "append_item (new_item env_files files_desktop (desktop_file env_files files_desktop)) init_model"
  have m: "m_items ?s = [0]"
    by (simp add: append_item_def init_model_def)
  from genericName_is_comment [of env_files files_desktop "desktop_file env_files files_desktop"] run_add_files
  have "\<forall>p \<in> set (m_items ?s). \<exists>obj. deref (heap ?s) p = Some obj \<and> genericName obj = comment obj"
    by blast
  with m have "\<exists>obj. deref (heap ?s) 0 = Some obj \<and> genericName obj = comment obj"
    by simp
  with m run_add_files show ?thesis by blast
qed

subsection \<open>Entries for other desktop environments\<close>

lemma addApp_OnlyShowIn_exact:
  assumes "live_store s" and "contains (desktop_file env fileName) ''OnlyShowIn''"
    and "detectDesktopEnvironment env \<notin> set (OnlyShowIn_items (desktop_file env fileName))"
  shows "addApp env fileName s = Some s"
proof -
  from findById_defined [OF assms(1)] obtain r where "findById s fileName = Some r" by blast
  with assms(2,3) show ?thesis
    by (simp add: addApp_def Let_def OnlyShowIn_items_def)
qed

text \<open>
  C3. For an entry file that declares \<^verbatim>\<open>OnlyShowIn\<close>: if \<^verbatim>\<open>addApp\<close> adds an item, then some
  element of the list equals the identifier of the current desktop environment (the result
  of \<^verbatim>\<open>detectDesktopEnvironment\<close>) under case-insensitive comparison; and if no element of
  the list does, \<^verbatim>\<open>addApp\<close> returns the model unchanged.
\<close>

theorem addApp_OnlyShowIn:
  assumes "live_store s" and "contains (desktop_file env fileName) ''OnlyShowIn''"
  shows "(\<forall>s'. addApp env fileName s = Some s' \<and> m_items s' \<noteq> m_items s \<longrightarrow>
            (\<exists>x \<in> set (OnlyShowIn_items (desktop_file env fileName)).
               equal_CaseInsensitive x (detectDesktopEnvironment env))) \<and>
         ((\<forall>x \<in> set (OnlyShowIn_items (desktop_file env fileName)).
             \<not> equal_CaseInsensitive x (detectDesktopEnvironment env)) \<longrightarrow>
          addApp env fileName s = Some s)"
proof (intro conjI allI impI)
  fix s'
  assume a: "addApp env fileName s = Some s' \<and> m_items s' \<noteq> m_items s"
  have "detectDesktopEnvironment env \<in> set (OnlyShowIn_items (desktop_file env fileName))"
  proof (rule ccontr)
    assume "detectDesktopEnvironment env \<notin> set (OnlyShowIn_items (desktop_file env fileName))"
    from addApp_OnlyShowIn_exact [OF assms this] a show False by simp
  qed
  then show "\<exists>x \<in> set (OnlyShowIn_items (desktop_file env fileName)).
               equal_CaseInsensitive x (detectDesktopEnvironment env)"
    by (auto simp: equal_CaseInsensitive_def)
next
  assume n: "\<forall>x \<in> set (OnlyShowIn_items (desktop_file env fileName)).
               \<not> equal_CaseInsensitive x (detectDesktopEnvironment env)"
  have "detectDesktopEnvironment env \<notin> set (OnlyShowIn_items (desktop_file env fileName))"
  proof
    assume "detectDesktopEnvironment env \<in> set (OnlyShowIn_items (desktop_file env fileName))"
    with n have "\<not> equal_CaseInsensitive (detectDesktopEnvironment env) (detectDesktopEnvironment env)"
      by blast
    then show False by (simp add: equal_CaseInsensitive_def)
  qed
  with assms show "addApp env fileName s = Some s" by (rule addApp_OnlyShowIn_exact)
qed

lemma detect_gnome_only: "detectDesktopEnvironment env_gnome_only = ''CUTEFISH''"
  by (simp add: detectDesktopEnvironment_def env_gnome_only_def toUpper_def toUpper_char_def
      lower_letters_def upper_letters_def)

lemma items_gnome_only: "OnlyShowIn_items (desktop_file env_gnome_only fileName) = [''GNOME'', '''']"
  by (simp add: OnlyShowIn_items_def env_gnome_only_def value_of_def split_def)

theorem addApp_OnlyShowIn_witness:
  "live_store init_model \<and>
   contains (desktop_file env_gnome_only ''/usr/share/applications/tweaks.desktop'') ''OnlyShowIn'' \<and>
   OnlyShowIn_items (desktop_file env_gnome_only ''/usr/share/applications/tweaks.desktop'') =
     [''GNOME'', []] \<and>
   \<not> equal_CaseInsensitive ''GNOME'' (detectDesktopEnvironment env_gnome_only) \<and>
   \<not> equal_CaseInsensitive [] (detectDesktopEnvironment env_gnome_only) \<and>
   addApp env_gnome_only ''/usr/share/applications/tweaks.desktop'' init_model = Some init_model"
proof -
  have c: "contains (desktop_file env_gnome_only ''/usr/share/applications/tweaks.desktop'') ''OnlyShowIn''"
    by (simp add: contains_def env_gnome_only_def)
  have n: "\<not> equal_CaseInsensitive ''GNOME'' (detectDesktopEnvironment env_gnome_only)"
    "\<not> equal_CaseInsensitive [] (detectDesktopEnvironment env_gnome_only)"
    by (simp_all add: detect_gnome_only equal_CaseInsensitive_def toLower_def
        toLower_char_def lower_letters_def upper_letters_def)
  from addApp_OnlyShowIn [OF live_store_init c] n
  have "addApp env_gnome_only ''/usr/share/applications/tweaks.desktop'' init_model = Some init_model"
    by (simp add: items_gnome_only)
  with live_store_init c n show ?thesis by (simp add: items_gnome_only)
qed

text \<open>
  The test the code makes is the exact one: an entry that names the environment in lower
  case is not added either.
\<close>

lemma addApp_lower_case_not_added:
  "addApp env_lower_case ''/usr/share/applications/dock.desktop'' init_model = Some init_model"
proof -
  have "detectDesktopEnvironment env_lower_case = ''CUTEFISH''"
    by (simp add: detectDesktopEnvironment_def env_lower_case_def toUpper_def toUpper_char_def
        lower_letters_def upper_letters_def)
  moreover have "OnlyShowIn_items (desktop_file env_lower_case fileName) = [''cutefish'', []]"
    for fileName
    by (simp add: OnlyShowIn_items_def env_lower_case_def value_of_def split_def)
  moreover have "contains (desktop_file env_lower_case fileName) ''OnlyShowIn''" for fileName
    by (simp add: contains_def env_lower_case_def)
  ultimately show ?thesis
    using addApp_OnlyShowIn_exact [OF live_store_init, of env_lower_case] by simp
qed

text \<open>
  When the environment variable is set, comparing with the detected identifier and comparing
  with the variable itself are the same under case-insensitive comparison.
\<close>

lemma toLower_toUpper_char: "toLower_char (toUpper_char c) = toLower_char c"
  by (simp add: toLower_char_def toUpper_char_def lower_letters_def upper_letters_def)

lemma equal_CaseInsensitive_detect:
  "XDG_CURRENT_DESKTOP env \<noteq> [] \<Longrightarrow>
     equal_CaseInsensitive x (detectDesktopEnvironment env) =
     equal_CaseInsensitive x (XDG_CURRENT_DESKTOP env)"
  by (simp add: equal_CaseInsensitive_def detectDesktopEnvironment_def Let_def toLower_def
      toUpper_def comp_def toLower_toUpper_char)

subsection \<open>Searching\<close>

lemma search_loop_filter:
  "list_all (\<lambda>p. p < length h) ps \<Longrightarrow>
     search_loop h key ps found = Some (found @ filter (matches_key h key) ps)"
  by (induction ps arbitrary: found)
     (simp_all add: deref_def matches_key_def contains_CaseInsensitive_def)

lemma shown_NormalMode: "m_mode s = NormalMode \<Longrightarrow> shown s = map Some (m_items s)"
  by (rule nth_equalityI) (simp_all add: shown_def rowCount_def data_item_def)

lemma shown_SearchMode: "m_mode s = SearchMode \<Longrightarrow> shown s = map Some (m_searchItems s)"
  by (rule nth_equalityI) (simp_all add: shown_def rowCount_def data_item_def)

text \<open>
  C4. On a store whose addresses are live, \<^verbatim>\<open>search\<close> returns and leaves the store as it is.
  With the empty key the model is in normal mode and the rows a view reads are the whole
  store in store order. With a non-empty key the model is in search mode and the rows are
  exactly the store items whose name or id contains the key as a substring, letter case
  ignored, in store order.
\<close>

theorem search_shows:
  assumes "live_store s"
  shows "\<exists>s'. search key s = Some s' \<and> heap s' = heap s \<and> m_items s' = m_items s \<and>
           (key = [] \<longrightarrow> m_mode s' = NormalMode \<and> shown s' = map Some (m_items s)) \<and>
           (key \<noteq> [] \<longrightarrow> m_mode s' = SearchMode \<and>
              shown s' = map Some (filter (matches_key (heap s) key) (m_items s)))"
proof -
  let ?found = "filter (matches_key (heap s) key) (m_items s)"
  let ?s' = "s\<lparr>m_mode := (if key = [] then NormalMode else SearchMode),
                m_searchItems := ?found, trace := trace s @ [LayoutChanged]\<rparr>"
  from assms have "search_loop (heap s) key (m_items s) [] = Some ?found"
    by (simp add: live_store_def search_loop_filter)
  then have "search key s = Some ?s'" by (simp add: search_def)
  moreover have "key = [] \<longrightarrow> m_mode ?s' = NormalMode \<and> shown ?s' = map Some (m_items s)"
    by (simp add: shown_NormalMode)
  moreover have "key \<noteq> [] \<longrightarrow> m_mode ?s' = SearchMode \<and> shown ?s' = map Some ?found"
    by (simp add: shown_SearchMode)
  ultimately show ?thesis by simp
qed

lemma live_model_two: "live_store model_two"
  by (simp add: live_store_def model_two_def)

lemma matches_two: "filter (matches_key (heap model_two) ''FILE'') (m_items model_two) = [1]"
  by (simp add: model_two_def matches_key_def deref_def toLower_def toLower_char_def
      lower_letters_def upper_letters_def sublist_Cons_right prefix_code)

theorem search_shows_witness:
  "live_store model_two \<and>
   (\<exists>s'. search ''FILE'' model_two = Some s' \<and> m_mode s' = SearchMode \<and> shown s' = [Some 1])"
  using search_shows [OF live_model_two, of "''FILE''"] live_model_two
  by (auto simp: matches_two)

subsection \<open>Refreshing\<close>

lemma addedEntries_loop_ids:
  "list_all (\<lambda>p. p < length h) ps \<Longrightarrow>
     addedEntries_loop h ps acc = Some (acc @ map (\<lambda>p. item_id (h ! p)) ps)"
  by (induction ps arbitrary: acc) (simp_all add: deref_def)

lemma allEntries_loop_filter: "allEntries_loop exists listing acc = acc @ filter exists listing"
  by (induction listing arbitrary: acc) simp_all

lemma add_loop_filter:
  "add_loop addedEntries allEntries queue =
     queue @ map Invoke_addApp (filter (\<lambda>fileName. fileName \<notin> set addedEntries) allEntries)"
  by (induction allEntries arbitrary: queue) simp_all

lemma remove_loop_filter:
  "list_all (\<lambda>p. p < length h) ps \<Longrightarrow>
     remove_loop h allEntries ps queue =
       Some (queue @ map Invoke_removeApp (filter (\<lambda>p. item_id (h ! p) \<notin> set allEntries) ps))"
  by (induction ps arbitrary: queue) (simp_all add: deref_def)

lemma refresh_queue:
  assumes "live_store s"
  shows "refresh listing exists s =
     Some (map Invoke_addApp
             (filter (\<lambda>fileName. fileName \<notin> id_of s ` set (m_items s)) (on_disk listing exists)) @
           map Invoke_removeApp
             (filter (\<lambda>p. id_of s p \<notin> set (on_disk listing exists)) (m_items s)) @
           [Invoke_refreshed])"
proof -
  from assms have l: "list_all (\<lambda>p. p < length (heap s)) (m_items s)"
    by (simp add: live_store_def)
  show ?thesis
    unfolding refresh_def Let_def
    by (simp add: addedEntries_loop_ids [OF l] allEntries_loop_filter add_loop_filter
        remove_loop_filter [OF l] on_disk_def id_of_def)
qed

text \<open>
  C5. On a store whose addresses are live, and for the entry-file paths that exist on disk,
  \<^verbatim>\<open>refresh\<close> queues: a call of \<^verbatim>\<open>addApp\<close> for exactly the paths on disk that are not the id
  of a store item, then a call of \<^verbatim>\<open>removeApp\<close> for exactly the store items whose id is not a
  path on disk, then, last, the \<^verbatim>\<open>refreshed\<close> signal. A store item whose id is a path on disk
  gets neither an add nor a remove.
\<close>

theorem refresh_requests:
  assumes "live_store s"
  shows "\<exists>queue. refresh listing exists s = Some (queue @ [Invoke_refreshed]) \<and>
           Invoke_refreshed \<notin> set queue \<and>
           (\<forall>fileName. Invoke_addApp fileName \<in> set queue \<longleftrightarrow>
              fileName \<in> set (on_disk listing exists) \<and> fileName \<notin> id_of s ` set (m_items s)) \<and>
           (\<forall>p. Invoke_removeApp p \<in> set queue \<longleftrightarrow>
              p \<in> set (m_items s) \<and> id_of s p \<notin> set (on_disk listing exists)) \<and>
           (\<forall>p. p \<in> set (m_items s) \<and> id_of s p \<in> set (on_disk listing exists) \<longrightarrow>
              Invoke_addApp (id_of s p) \<notin> set queue \<and> Invoke_removeApp p \<notin> set queue)"
proof -
  let ?adds = "filter (\<lambda>fileName. fileName \<notin> id_of s ` set (m_items s)) (on_disk listing exists)"
  let ?removes = "filter (\<lambda>p. id_of s p \<notin> set (on_disk listing exists)) (m_items s)"
  let ?queue = "map Invoke_addApp ?adds @ map Invoke_removeApp ?removes"
  from refresh_queue [OF assms]
  have "refresh listing exists s = Some (?queue @ [Invoke_refreshed])" by simp
  moreover have "Invoke_refreshed \<notin> set ?queue" by auto
  moreover have "Invoke_addApp fileName \<in> set ?queue \<longleftrightarrow>
      fileName \<in> set (on_disk listing exists) \<and> fileName \<notin> id_of s ` set (m_items s)" for fileName
    by auto
  moreover have "Invoke_removeApp p \<in> set ?queue \<longleftrightarrow>
      p \<in> set (m_items s) \<and> id_of s p \<notin> set (on_disk listing exists)" for p
    by auto
  moreover have "p \<in> set (m_items s) \<and> id_of s p \<in> set (on_disk listing exists) \<longrightarrow>
      Invoke_addApp (id_of s p) \<notin> set ?queue \<and> Invoke_removeApp p \<notin> set ?queue" for p
    by auto
  ultimately show ?thesis by blast
qed

lemma refresh_two:
  "refresh [''/usr/share/applications/cutefish-filemanager.desktop'',
            ''/usr/share/applications/gone.desktop'',
            ''/usr/share/applications/new.desktop'']
           (\<lambda>fileName. fileName \<noteq> ''/usr/share/applications/gone.desktop'') model_two =
     Some [Invoke_addApp ''/usr/share/applications/new.desktop'', Invoke_removeApp 0, Invoke_refreshed]"
  by (simp add: refresh_def model_two_def deref_def)

theorem refresh_requests_witness:
  "live_store model_two \<and>
   (\<exists>queue. refresh [''/usr/share/applications/cutefish-filemanager.desktop'',
                      ''/usr/share/applications/gone.desktop'',
                      ''/usr/share/applications/new.desktop'']
                     (\<lambda>fileName. fileName \<noteq> ''/usr/share/applications/gone.desktop'') model_two =
              Some (queue @ [Invoke_refreshed]) \<and>
            queue = [Invoke_addApp ''/usr/share/applications/new.desktop'', Invoke_removeApp 0] \<and>
            Invoke_refreshed \<notin> set queue)"
  using refresh_requests [OF live_model_two,
      of "[''/usr/share/applications/cutefish-filemanager.desktop'',
           ''/usr/share/applications/gone.desktop'',
           ''/usr/share/applications/new.desktop'']"
         "\<lambda>fileName. fileName \<noteq> ''/usr/share/applications/gone.desktop''"]
    live_model_two
  by (auto simp: refresh_two)

subsection \<open>Sorting after a refresh\<close>

lemma set_std_sort_insert: "set (std_sort_insert lt x xs) = insert x (set xs)"
  by (induction xs) auto

lemma sorted_std_sort_insert:
  fixes key :: "'a \<Rightarrow> 'k::linorder"
  assumes "sorted (map key xs)"
  shows "sorted (map key (std_sort_insert (\<lambda>a b. key a < key b) x xs))"
  using assms
proof (induction xs)
  case Nil
  then show ?case by simp
next
  case (Cons y ys)
  show ?case
  proof (cases "key x < key y")
    case True
    with Cons.prems show ?thesis by auto
  next
    case False
    from Cons.prems have "sorted (map key ys)" by simp
    from Cons.IH [OF this] Cons.prems False show ?thesis
      by (auto simp: set_std_sort_insert)
  qed
qed

lemma sorted_std_sort:
  fixes key :: "'a \<Rightarrow> 'k::linorder"
  shows "sorted (map key (std_sort (\<lambda>a b. key a < key b) xs))"
  by (induction xs) (simp_all add: sorted_std_sort_insert)

text \<open>
  C6. On a store whose addresses are live, the handler of \<^verbatim>\<open>refreshed\<close> returns, leaves every
  item object as it is and leaves the store sorted by item name in ascending order: of two
  adjacent store items the earlier has a name less than or equal to that of the later. The
  store after the handler holds the same multiset of items as before.
\<close>

theorem refreshed_sorts_by_name:
  assumes "live_store s"
  shows "\<exists>s'. refreshed s = Some s' \<and> heap s' = heap s \<and>
           mset (m_items s') = mset (m_items s) \<and>
           (\<forall>i. Suc i < length (m_items s') \<longrightarrow>
              name (heap s' ! (m_items s' ! i)) \<le> name (heap s' ! (m_items s' ! Suc i)))"
proof -
  let ?sorted = "std_sort (\<lambda>a b. name (heap s ! a) < name (heap s ! b)) (m_items s)"
  let ?s' = "s\<lparr>m_items := ?sorted, trace := trace s @ [BeginResetModel, EndResetModel]\<rparr>"
  from assms have "refreshed s = Some ?s'"
    by (simp add: refreshed_def live_store_def)
  moreover have "mset ?sorted = mset (m_items s)" by (rule mset_std_sort)
  moreover have "name (heap s ! (?sorted ! i)) \<le> name (heap s ! (?sorted ! Suc i))"
    if "Suc i < length ?sorted" for i
  proof -
    have "sorted (map (\<lambda>p. name (heap s ! p)) ?sorted)" by (rule sorted_std_sort)
    with that have "map (\<lambda>p. name (heap s ! p)) ?sorted ! i \<le> map (\<lambda>p. name (heap s ! p)) ?sorted ! Suc i"
      by (simp add: sorted_iff_nth_Suc del: nth_map)
    with that show ?thesis by simp
  qed
  ultimately show ?thesis by simp
qed

lemma refreshed_two:
  "refreshed model_two =
     Some (model_two\<lparr>m_items := [1, 0], trace := [BeginResetModel, EndResetModel]\<rparr>)"
  by (simp add: refreshed_def model_two_def)

theorem refreshed_sorts_by_name_witness:
  "live_store model_two \<and>
   (\<exists>s'. refreshed model_two = Some s' \<and> m_items s' = [1, 0] \<and>
         name (heap s' ! (m_items s' ! 0)) \<le> name (heap s' ! (m_items s' ! Suc 0)))"
proof -
  from refreshed_sorts_by_name [OF live_model_two] obtain s'
    where r: "refreshed model_two = Some s'"
      and a: "\<forall>i. Suc i < length (m_items s') \<longrightarrow>
                name (heap s' ! (m_items s' ! i)) \<le> name (heap s' ! (m_items s' ! Suc i))"
    by blast
  from r have m: "m_items s' = [1, 0]" by (auto simp: refreshed_two)
  with a have "name (heap s' ! (m_items s' ! 0)) \<le> name (heap s' ! (m_items s' ! Suc 0))"
    by simp
  with r m live_model_two show ?thesis by simp
qed

subsection \<open>Launching\<close>

lemma findById_loop_first:
  "i < length ps \<Longrightarrow> list_all (\<lambda>p. p < length h) ps \<Longrightarrow> item_id (h ! (ps ! i)) = key \<Longrightarrow>
     (\<forall>j < i. item_id (h ! (ps ! j)) \<noteq> key) \<Longrightarrow>
     findById_loop h ps k key = Some (k + int i)"
proof (induction ps arbitrary: i k)
  case Nil
  then show ?case by simp
next
  case (Cons p ps)
  show ?case
  proof (cases i)
    case 0
    with Cons.prems show ?thesis by (simp add: deref_def)
  next
    case (Suc n)
    with Cons.prems have n: "n < length ps" and l: "list_all (\<lambda>p. p < length h) ps"
      and k: "item_id (h ! (ps ! n)) = key" and f: "\<forall>j < n. item_id (h ! (ps ! j)) \<noteq> key"
      and p: "p < length h" "item_id (h ! p) \<noteq> key"
      by auto
    from Cons.IH [OF n l k f, of "k + 1"] p Suc show ?thesis
      by (simp add: deref_def)
  qed
qed

lemma findById_first:
  assumes "live_store s" and "i < length (m_items s)" and "id_of s (m_items s ! i) = path"
    and "\<forall>j < i. id_of s (m_items s ! j) \<noteq> path"
  shows "findById s path = Some (int i)"
  using findById_loop_first [of i "m_items s" "heap s" path 0] assms
  by (simp add: findById_def live_store_def id_of_def)

text \<open>
  C9. On a store whose addresses are live: when no store item has the id \<open>path\<close>, \<^verbatim>\<open>launch\<close>
  returns false and leaves the model, trace included, as it is, so no process is started.
  When the first store item with that id has the launch arguments \<open>cmd\<close> followed by \<open>rest\<close>,
  \<^verbatim>\<open>launch\<close> emits the launched notification and starts a process with program \<open>cmd\<close> and
  arguments \<open>rest\<close>, or the fixed arguments \<^verbatim>\<open>-d 200\<close> when \<open>cmd\<close> is \<^verbatim>\<open>cutefish-screenshot\<close>, and
  returns what the detached start returns.
\<close>

theorem launch_result:
  assumes "live_store s"
  shows "(path \<notin> id_of s ` set (m_items s) \<longrightarrow> launch env path s = Some (False, s)) \<and>
         (\<forall>i cmd rest arguments.
            i < length (m_items s) \<and> id_of s (m_items s ! i) = path \<and>
            (\<forall>j < i. id_of s (m_items s ! j) \<noteq> path) \<and>
            args (heap s ! (m_items s ! i)) = cmd # rest \<and>
            arguments = (if cmd = ''cutefish-screenshot'' then [''-d'', ''200''] else rest) \<longrightarrow>
            launch env path s =
              Some (startDetached env cmd arguments,
                    s\<lparr>trace := trace s @ [ApplicationLaunched, StartDetached cmd arguments]\<rparr>))"
proof (intro conjI allI impI)
  assume "path \<notin> id_of s ` set (m_items s)"
  with assms have "Some path \<notin> set (store_ids s)"
    by (auto simp: store_ids_live id_of_def)
  from findById_absent [OF assms this] show "launch env path s = Some (False, s)"
    by (simp add: launch_def)
next
  fix i cmd rest arguments
  assume a: "i < length (m_items s) \<and> id_of s (m_items s ! i) = path \<and>
            (\<forall>j < i. id_of s (m_items s ! j) \<noteq> path) \<and>
            args (heap s ! (m_items s ! i)) = cmd # rest \<and>
            arguments = (if cmd = ''cutefish-screenshot'' then [''-d'', ''200''] else rest)"
  then have f: "findById s path = Some (int i)"
    using findById_first [OF assms] by blast
  from a assms have "m_items s ! i < length (heap s)"
    by (simp add: live_store_def list_all_length)
  with a f show "launch env path s =
      Some (startDetached env cmd arguments,
            s\<lparr>trace := trace s @ [ApplicationLaunched, StartDetached cmd arguments]\<rparr>)"
    by (simp add: launch_def deref_def Let_def)
qed

text \<open>The two paths of \<^verbatim>\<open>launch\<close> on the store of two items, where every start succeeds.\<close>

theorem launch_result_witness:
  "live_store model_two \<and>
   launch env_files ''/usr/share/applications/none.desktop'' model_two = Some (False, model_two) \<and>
   launch env_files files_desktop model_two =
     Some (True, model_two\<lparr>trace := [ApplicationLaunched, StartDetached ''org.cutefish.filemanager'' []]\<rparr>)"
proof -
  have n: "''/usr/share/applications/none.desktop'' \<notin> id_of model_two ` set (m_items model_two)"
    by (simp add: model_two_def id_of_def)
  have f: "1 < length (m_items model_two) \<and> id_of model_two (m_items model_two ! 1) = files_desktop \<and>
      (\<forall>j < 1. id_of model_two (m_items model_two ! j) \<noteq> files_desktop) \<and>
      args (heap model_two ! (m_items model_two ! 1)) = ''org.cutefish.filemanager'' # [] \<and>
      [] = (if ''org.cutefish.filemanager'' = ''cutefish-screenshot'' then [''-d'', ''200''] else [])"
    by (simp add: model_two_def id_of_def files_desktop_def)
  from launch_result [OF live_model_two, of "''/usr/share/applications/none.desktop''" env_files] n
  have "launch env_files ''/usr/share/applications/none.desktop'' model_two = Some (False, model_two)"
    by blast
  moreover from launch_result [OF live_model_two, of files_desktop env_files] f
  have "launch env_files files_desktop model_two =
      Some (startDetached env_files ''org.cutefish.filemanager'' [],
            model_two\<lparr>trace := trace model_two @
              [ApplicationLaunched, StartDetached ''org.cutefish.filemanager'' []]\<rparr>)"
    by blast
  ultimately show ?thesis using live_model_two
    by (simp add: env_files_def model_two_def)
qed

text \<open>The screenshot tool gets the fixed arguments whatever its entry says.\<close>

lemma launch_screenshot:
  "launch env ''shot.desktop''
     \<lparr>heap = [\<lparr>item_id = ''shot.desktop'', name = ''Screenshot'', genericName = [], comment = [],
               iconName = [], args = [''cutefish-screenshot'', ''--full'']\<rparr>],
      m_items = [0], m_searchItems = [], m_mode = NormalMode, trace = []\<rparr> =
   Some (startDetached env ''cutefish-screenshot'' [''-d'', ''200''],
     \<lparr>heap = [\<lparr>item_id = ''shot.desktop'', name = ''Screenshot'', genericName = [], comment = [],
               iconName = [], args = [''cutefish-screenshot'', ''--full'']\<rparr>],
      m_items = [0], m_searchItems = [], m_mode = NormalMode,
      trace = [ApplicationLaunched, StartDetached ''cutefish-screenshot'' [''-d'', ''200'']]\<rparr>)"
  by (simp add: launch_def findById_def deref_def Let_def)

text \<open>An item built by \<^verbatim>\<open>addApp\<close> always has a first launch argument.\<close>

lemma split_at_not_Nil: "split_at sep s \<noteq> []"
  by (induction s) (auto split: list.splits)

lemma args_new_item_not_Nil: "args (new_item env fileName desktop) \<noteq> []"
  by (simp add: new_item_def Let_def exec_args_def split_def split_at_not_Nil)

end
